theory Spec2Isabelle
  imports Main "HOL-Library.AList" "HOL-Library.Monad_Syntax"
begin

section \<open>Text primitives of the lineage analyzer\<close>

text \<open>
  Python strings are modelled as \<^typ>\<open>string\<close>, one \<^typ>\<open>char\<close> per code point. The
  development is about ASCII text (code points below 128): there \<open>str.upper\<close> changes the
  letters \<open>a\<close> to \<open>z\<close> and nothing else, which is all that \<open>upper\<close> below does, and the
  character classes of the regular expressions are the ASCII ones. Outside ASCII
  \<open>str.upper\<close> also changes accented letters; such text is not covered.
\<close>

definition is_space :: "char \<Rightarrow> bool" where
  \<comment> \<open>\<open>str.isspace\<close> and the class \<open>\s\<close>: tab, newline, vertical tab, form feed, carriage
      return, the four separators 0x1C..0x1F, space, NEL and the no-break space.\<close>
  "is_space c \<longleftrightarrow> c \<in> set [CHR 0x09, CHR 0x0A, CHR 0x0B, CHR 0x0C, CHR 0x0D,
       CHR 0x1C, CHR 0x1D, CHR 0x1E, CHR 0x1F, CHR 0x20, CHR 0x85, CHR 0xA0]"

definition lower_letters :: string where
  "lower_letters = ''abcdefghijklmnopqrstuvwxyz''"

definition upper_letters :: string where
  "upper_letters = ''ABCDEFGHIJKLMNOPQRSTUVWXYZ''"

definition is_word :: "char \<Rightarrow> bool" where
  \<comment> \<open>the class \<open>[a-zA-Z0-9_]\<close>\<close>
  "is_word c \<longleftrightarrow> c \<in> set (lower_letters @ upper_letters @ ''0123456789_'')"

definition upper_char :: "char \<Rightarrow> char" where
  "upper_char c = (case map_of (zip lower_letters upper_letters) c of Some u \<Rightarrow> u | None \<Rightarrow> c)"

definition upper :: "string \<Rightarrow> string" where
  \<comment> \<open>\<open>str.upper()\<close>\<close>
  "upper s = map upper_char s"

definition strip :: "string \<Rightarrow> string" where
  \<comment> \<open>\<open>str.strip()\<close>: leading and trailing white space removed\<close>
  "strip s = rev (dropWhile is_space (rev (dropWhile is_space s)))"

definition startswith :: "string \<Rightarrow> string \<Rightarrow> bool" where
  \<comment> \<open>\<open>s.startswith(p)\<close>\<close>
  "startswith s p \<longleftrightarrow> take (length p) s = p"

fun contains :: "string \<Rightarrow> string \<Rightarrow> bool" where
  \<comment> \<open>\<open>p in s\<close> for strings: \<open>p\<close> occurs in \<open>s\<close> as a contiguous run\<close>
  "contains [] p = (p = [])"
| "contains (c # cs) p = (startswith (c # cs) p \<or> contains cs p)"

fun split_on :: "char \<Rightarrow> string \<Rightarrow> string list" where
  \<comment> \<open>\<open>s.split(d)\<close> for a one-character separator: one piece more than separators\<close>
  "split_on d [] = [[]]"
| "split_on d (c # cs) =
     (if c = d then [] # split_on d cs
      else (case split_on d cs of [] \<Rightarrow> [[c]] | p # ps \<Rightarrow> (c # p) # ps))"

section \<open>Regular expressions as matchers\<close>

text \<open>
  A matcher takes the text from a position on and returns what the pattern captures there
  together with the text after the match, or \<open>None\<close> when the pattern does not match at
  that position. \<open>re.search\<close> tries the positions from left to right and returns the
  first match. Every repetition in the patterns of this program is followed by a
  character its class excludes (or by the end of the pattern), so the greedy match is the
  maximal run and backtracking into it never succeeds: the matchers take maximal runs.
\<close>

definition lit :: "string \<Rightarrow> string \<Rightarrow> string option" where
  \<comment> \<open>a literal, case-sensitively\<close>
  "lit p s = (if startswith s p then Some (drop (length p) s) else None)"

definition lit_ci :: "string \<Rightarrow> string \<Rightarrow> string option" where
  \<comment> \<open>an upper-case literal under \<open>re.IGNORECASE\<close>\<close>
  "lit_ci p s = (if upper (take (length p) s) = p then Some (drop (length p) s) else None)"

definition run1 :: "(char \<Rightarrow> bool) \<Rightarrow> string \<Rightarrow> (string \<times> string) option" where
  \<comment> \<open>\<open>[class]+\<close>: the maximal non-empty run of the class\<close>
  "run1 P s = (if takeWhile P s = [] then None else Some (takeWhile P s, dropWhile P s))"

definition ws1 :: "string \<Rightarrow> string option" where
  \<comment> \<open>\<open>\s+\<close>\<close>
  "ws1 s = map_option snd (run1 is_space s)"

definition ws0 :: "string \<Rightarrow> string" where
  \<comment> \<open>\<open>\s*\<close>\<close>
  "ws0 s = dropWhile is_space s"

fun search :: "(string \<Rightarrow> 'a option) \<Rightarrow> string \<Rightarrow> 'a option" where
  \<comment> \<open>\<open>re.search\<close>: the match at the leftmost position that has one (the end of the text
      is a position too)\<close>
  "search m [] = m []"
| "search m (c # cs) = (case m (c # cs) of Some r \<Rightarrow> Some r | None \<Rightarrow> search m cs)"

section \<open>Query type classification (extractor.py)\<close>

definition extract_query_type :: "string \<Rightarrow> string" where
  "extract_query_type sql_text =
     (let t = upper (strip sql_text) in
      if startswith t ''SELECT'' then ''SELECT''
      else if startswith t ''INSERT'' then ''INSERT''
      else if startswith t ''UPDATE'' then ''UPDATE''
      else if startswith t ''DELETE'' then ''DELETE''
      else if startswith t ''CREATE TABLE'' then ''CREATE TABLE''
      else if startswith t ''CREATE VIEW'' then ''CREATE VIEW''
      else if startswith t ''CREATE PROCEDURE'' \<or> startswith t ''CREATE FUNCTION''
        then ''CREATE PROCEDURE''
      else if startswith t ''ALTER'' then ''ALTER''
      else if startswith t ''DROP'' then ''DROP''
      else ''UNKNOWN'')"

section \<open>Statement splitting (extractor.py)\<close>

text \<open>
  \<open>re.sub(r'--.*?$', ' ', text, flags=re.MULTILINE)\<close>: from \<open>--\<close> up to, not including,
  the next newline (or the end of the text), replaced by one space.
\<close>

function (sequential) strip_line_comments :: "string \<Rightarrow> string" where
  "strip_line_comments [] = []"
| "strip_line_comments [c] = [c]"
| "strip_line_comments (c # d # cs) =
     (if c = CHR ''-'' \<and> d = CHR ''-''
      then CHR '' '' # strip_line_comments (dropWhile (\<lambda>x. x \<noteq> CHR 0x0A) cs)
      else c # strip_line_comments (d # cs))"
  by pat_completeness auto
termination
  by (relation "measure length") (auto simp: less_Suc_eq_le intro: le_trans [OF length_dropWhile_le])

text \<open>
  \<open>re.sub(r'/\*.*?\*/', ' ', text, flags=re.DOTALL)\<close>: from \<open>/*\<close> to the first \<open>*/\<close>
  after it, replaced by one space; a \<open>/*\<close> that is never closed stays.
\<close>

fun find_close :: "string \<Rightarrow> string option" where
  \<comment> \<open>the text after the first \<open>*/\<close>\<close>
  "find_close [] = None"
| "find_close [c] = None"
| "find_close (c # d # cs) =
     (if c = CHR ''*'' \<and> d = CHR ''/'' then Some cs else find_close (d # cs))"

lemma find_close_length: "find_close s = Some r \<Longrightarrow> length r < length s"
  by (induction s arbitrary: r rule: find_close.induct) (auto split: if_splits)

function (sequential) strip_block_comments :: "string \<Rightarrow> string" where
  "strip_block_comments [] = []"
| "strip_block_comments [c] = [c]"
| "strip_block_comments (c # d # cs) =
     (if c = CHR ''/'' \<and> d = CHR ''*'' then
        (case find_close cs of
           Some rest \<Rightarrow> CHR '' '' # strip_block_comments rest
         | None \<Rightarrow> c # strip_block_comments (d # cs))
      else c # strip_block_comments (d # cs))"
  by pat_completeness auto
termination
  by (relation "measure length") (auto dest: find_close_length)

text \<open>
  The loop of \<open>extract_sql_statements\<close> over the characters; its state is
  \<open>in_quote\<close>, \<open>quote_char\<close>, \<open>current_statement\<close> and \<open>statements\<close>.
\<close>

definition is_quote :: "char \<Rightarrow> bool" where
  "is_quote c \<longleftrightarrow> c = CHR 0x27 \<or> c = CHR 0x22"

definition add_statement :: "string \<Rightarrow> string list \<Rightarrow> string list" where
  \<comment> \<open>\<open>if current_statement.strip(): statements.append(current_statement.strip())\<close>\<close>
  "add_statement current statements =
     (if strip current \<noteq> [] then statements @ [strip current] else statements)"

fun split_loop :: "bool \<Rightarrow> char option \<Rightarrow> string \<Rightarrow> string list \<Rightarrow> string
    \<Rightarrow> string list \<times> string" where
  "split_loop in_quote quote_char current statements [] = (statements, current)"
| "split_loop in_quote quote_char current statements (c # cs) =
     (if is_quote c \<and> (\<not> in_quote \<or> quote_char = Some c) then
        split_loop (\<not> in_quote) (if \<not> in_quote then Some c else None)
          (current @ [c]) statements cs
      else if c = CHR '';'' \<and> \<not> in_quote then
        split_loop in_quote quote_char [] (add_statement current statements) cs
      else split_loop in_quote quote_char (current @ [c]) statements cs)"

definition extract_sql_statements :: "string \<Rightarrow> string list" where
  "extract_sql_statements sql_file_content =
     (let sql_content = strip_block_comments (strip_line_comments sql_file_content);
          (statements, current_statement) = split_loop False None [] [] sql_content
      in add_statement current_statement statements)"

text \<open>
  Two readings of the loop used to state its properties. \<open>sql_content\<close> is the value of
  the local variable of that name when the loop starts: the input with both kinds of
  comment replaced. \<open>scan_state\<close> is the pair \<open>(in_quote, quote_char)\<close> the loop holds
  after it has read a text, by the same test and the same two assignments.
\<close>

definition sql_content :: "string \<Rightarrow> string" where
  "sql_content sql_file_content = strip_block_comments (strip_line_comments sql_file_content)"

fun scan_state :: "bool \<times> char option \<Rightarrow> string \<Rightarrow> bool \<times> char option" where
  "scan_state st [] = st"
| "scan_state (in_quote, quote_char) (c # cs) =
     (if is_quote c \<and> (\<not> in_quote \<or> quote_char = Some c)
      then scan_state (\<not> in_quote, if \<not> in_quote then Some c else None) cs
      else scan_state (in_quote, quote_char) cs)"

section \<open>Stored procedure parameters (extractor.py)\<close>

text \<open>
  The pattern \<open>CREATE\s+(?:OR\s+REPLACE\s+)?PROCEDURE\s+[^\s(]+\s*\(([^)]+)\)\<close> under
  \<open>re.IGNORECASE\<close>, at a position: the captured parameter text and the text after the
  match. When the optional group matches and the rest of the pattern fails, the match
  without the group fails too, since \<open>PROCEDURE\<close> does not start with \<open>OR\<close>.
\<close>

definition create_proc_pattern :: "string \<Rightarrow> (string \<times> string) option" where
  "create_proc_pattern s =
     do {
       s1 \<leftarrow> lit_ci ''CREATE'' s;
       s2 \<leftarrow> ws1 s1;
       let s3 = (case do { r1 \<leftarrow> lit_ci ''OR'' s2; r2 \<leftarrow> ws1 r1;
                           r3 \<leftarrow> lit_ci ''REPLACE'' r2; ws1 r3 } of
                   Some r \<Rightarrow> r
                 | None \<Rightarrow> s2);
       s4 \<leftarrow> lit_ci ''PROCEDURE'' s3;
       s5 \<leftarrow> ws1 s4;
       (name, s6) \<leftarrow> run1 (\<lambda>c. \<not> is_space c \<and> c \<noteq> CHR ''('') s5;
       s7 \<leftarrow> lit ''('' (ws0 s6);
       (params_text, s8) \<leftarrow> run1 (\<lambda>c. c \<noteq> CHR '')'') s7;
       s9 \<leftarrow> lit '')'' s8;
       Some (params_text, s9)
     }"

lemma lit_length: "lit p s = Some r \<Longrightarrow> length r \<le> length s"
  by (auto simp: lit_def split: if_splits)

lemma lit_ci_length: "lit_ci p s = Some r \<Longrightarrow> length r \<le> length s"
  by (auto simp: lit_ci_def split: if_splits)

lemma run1_length: "run1 P s = Some (g, r) \<Longrightarrow> length r < length s"
  unfolding run1_def
  by (auto split: if_splits simp: takeWhile_eq_Nil_iff)
     (metis length_dropWhile_le dropWhile.simps(2) le_imp_less_Suc length_Cons list.exhaust
       takeWhile.simps(1) list.sel(1))

lemma ws1_length: "ws1 s = Some r \<Longrightarrow> length r \<le> length s"
  by (auto simp: ws1_def run1_def split: if_splits intro: length_dropWhile_le)

lemma ws0_length: "length (ws0 s) \<le> length s"
  by (simp add: ws0_def length_dropWhile_le)

lemma optional_length:
  "length (case do { r1 \<leftarrow> lit_ci a s; r2 \<leftarrow> ws1 r1; r3 \<leftarrow> lit_ci b r2; ws1 r3 } of
             Some r \<Rightarrow> r | None \<Rightarrow> s) \<le> length s"
  by (auto split: option.splits Option.bind_splits
      dest!: lit_ci_length ws1_length)

lemma create_proc_pattern_length:
  assumes "create_proc_pattern s = Some (g, r)"
  shows "length r < length s"
proof -
  from assms obtain s1 s2 s4 s5 name s6 s7 s8 where
    a: "lit_ci ''CREATE'' s = Some s1" "ws1 s1 = Some s2"
      "lit_ci ''PROCEDURE'' (case do { r1 \<leftarrow> lit_ci ''OR'' s2; r2 \<leftarrow> ws1 r1;
                           r3 \<leftarrow> lit_ci ''REPLACE'' r2; ws1 r3 } of
                   Some r \<Rightarrow> r
                 | None \<Rightarrow> s2) = Some s4"
      "ws1 s4 = Some s5"
      "run1 (\<lambda>c. \<not> is_space c \<and> c \<noteq> CHR ''('') s5 = Some (name, s6)"
      "lit ''('' (ws0 s6) = Some s7"
      "run1 (\<lambda>c. c \<noteq> CHR '')'') s7 = Some (g, s8)"
      "lit '')'' s8 = Some r"
    unfolding create_proc_pattern_def
    by (auto simp: Let_def split: Option.bind_splits)
  have "length r \<le> length s8" using a(8) by (rule lit_length)
  also have "\<dots> < length s7" using a(7) by (rule run1_length)
  also have "\<dots> \<le> length (ws0 s6)" using a(6) by (rule lit_length)
  also have "\<dots> \<le> length s6" by (rule ws0_length)
  also have "\<dots> \<le> length s5" using run1_length [OF a(5)] by simp
  also have "\<dots> \<le> length s4" using a(4) by (rule ws1_length)
  also have "\<dots> \<le> length (case do { r1 \<leftarrow> lit_ci ''OR'' s2; r2 \<leftarrow> ws1 r1;
                           r3 \<leftarrow> lit_ci ''REPLACE'' r2; ws1 r3 } of
                   Some r \<Rightarrow> r
                 | None \<Rightarrow> s2)" using a(3) by (rule lit_ci_length)
  also have "\<dots> \<le> length s2" by (rule optional_length)
  also have "\<dots> \<le> length s1" using a(2) by (rule ws1_length)
  also have "\<dots> \<le> length s" using a(1) by (rule lit_ci_length)
  finally show ?thesis .
qed

text \<open>
  \<open>re.finditer\<close>: the matches from left to right, each search starting where the match
  before it ended; the captured group of each.
\<close>

function create_proc_matches :: "string \<Rightarrow> string list" where
  "create_proc_matches s =
     (case create_proc_pattern s of
        Some (params_text, rest) \<Rightarrow> params_text # create_proc_matches rest
      | None \<Rightarrow> (case s of [] \<Rightarrow> [] | c # cs \<Rightarrow> create_proc_matches cs))"
  by pat_completeness auto
termination
  by (relation "measure length") (auto dest: create_proc_pattern_length)

text \<open>
  \<open>re.search(r'\bW\b', param, re.IGNORECASE)\<close> for an upper-case word \<open>W\<close>: an occurrence of
  \<open>W\<close>, in any case, with no word character right before it and none right after it.
\<close>

fun word_search_from :: "string \<Rightarrow> bool \<Rightarrow> string \<Rightarrow> bool" where
  "word_search_from w after_word [] = False"
| "word_search_from w after_word (c # cs) =
     ((\<not> after_word \<and>
        (case lit_ci w (c # cs) of
           Some [] \<Rightarrow> True
         | Some (d # _) \<Rightarrow> \<not> is_word d
         | None \<Rightarrow> False))
      \<or> word_search_from w (is_word c) cs)"

definition word_search :: "string \<Rightarrow> string \<Rightarrow> bool" where
  "word_search w s = word_search_from w False s"

text \<open>
  The loop over \<open>param_list\<close>, on the pair \<open>(input_params, output_params)\<close>, and the loop
  over the matches around it.
\<close>

fun add_params :: "string list \<Rightarrow> string list \<times> string list \<Rightarrow> string list \<times> string list" where
  "add_params [] (input_params, output_params) = (input_params, output_params)"
| "add_params (p # param_list) (input_params, output_params) =
     (let param = strip p in
      if word_search ''IN'' param then
        add_params param_list (input_params @ [param], output_params)
      else if word_search ''OUT'' param then
        add_params param_list (input_params, output_params @ [param])
      else if word_search ''INOUT'' param then
        add_params param_list (input_params @ [param], output_params @ [param])
      else add_params param_list (input_params @ [param], output_params))"

definition extract_stored_procedure_params :: "string \<Rightarrow> string list \<times> string list" where
  "extract_stored_procedure_params sql_text =
     fold (\<lambda>params_text. add_params (split_on (CHR '','') params_text))
       (create_proc_matches sql_text) ([], [])"

section \<open>The metadata store (metadata.py)\<close>

text \<open>
  \<open>self.metadata\<close> is a dictionary \<open>{db: {table: {column: properties}}}\<close>. Python
  dictionaries keep insertion order, and \<open>get_columns\<close> returns the keys in that order, so
  each level is an association list; \<open>d[k] = v\<close> is \<^const>\<open>AList.update\<close> (the value
  is replaced in place when the key is present, the pair is appended otherwise) and
  \<open>d[k]\<close> is \<^const>\<open>map_of\<close>, where \<open>None\<close> stands for \<open>KeyError\<close>. A property
  bag maps strings to values; the values of this development are the strings, the tuples
  of strings and the lists of strings, enough to tell a value that JSON gives back
  unchanged from one it does not. An operation returns the new store, or \<open>None\<close> when
  it raises.

  The store holds values. In Python \<open>add_column\<close> stores the dictionary object it was
  given (and writes \<open>description\<close> into that same object), so a caller that keeps the
  object and changes it later changes the store as well; this sharing is not modelled,
  and what is proved of \<open>add_column\<close> is about the store right after the call.
\<close>

datatype pyvalue = Str string | Tuple "string list" | List "string list"

type_synonym props = "(string \<times> pyvalue) list"
type_synonym table = "(string \<times> props) list"
type_synonym database = "(string \<times> table) list"
type_synonym store = "(string \<times> database) list"

definition table_properties_key :: string where
  "table_properties_key = ''_table_properties''"

definition truthy :: "string option \<Rightarrow> bool" where
  \<comment> \<open>the truth value of an \<open>Optional[str]\<close>: neither \<open>None\<close> nor empty\<close>
  "truthy x \<longleftrightarrow> (case x of None \<Rightarrow> False | Some v \<Rightarrow> v \<noteq> [])"

definition split_qualified :: "string \<Rightarrow> string option \<Rightarrow> string option \<times> string" where
  \<comment> \<open>\<open>if '.' in table_name and not database_name: parts = table_name.split('.');
      if len(parts) == 2: database_name, table_name = parts\<close>\<close>
  "split_qualified table_name database_name =
     (if CHR ''.'' \<in> set table_name \<and> \<not> truthy database_name then
        (case split_on (CHR ''.'') table_name of
           [d, t] \<Rightarrow> (Some d, t)
         | _ \<Rightarrow> (database_name, table_name))
      else (database_name, table_name))"

definition default_db :: "string option \<Rightarrow> string" where
  \<comment> \<open>\<open>if not database_name: database_name = 'default'\<close>\<close>
  "default_db database_name =
     (case database_name of
        None \<Rightarrow> ''default''
      | Some d \<Rightarrow> if d = [] then ''default'' else d)"

definition add_database :: "string \<Rightarrow> store \<Rightarrow> store" where
  "add_database database_name s =
     (case map_of s database_name of
        None \<Rightarrow> AList.update database_name [] s
      | Some _ \<Rightarrow> s)"

definition add_table_plain :: "string \<Rightarrow> string option \<Rightarrow> store \<Rightarrow> store option" where
  \<comment> \<open>\<open>add_table(table_name, database_name)\<close>, no description given\<close>
  "add_table_plain table_name database_name s =
     (case split_qualified table_name database_name of (d, t) \<Rightarrow>
        let db = default_db d; s1 = add_database db s in
        do {
          tabs \<leftarrow> map_of s1 db;
          (case map_of tabs t of
             None \<Rightarrow> Some (AList.update db
               (AList.update t [(table_properties_key, [])] tabs) s1)
           | Some _ \<Rightarrow> Some s1)
        })"

definition set_table_description ::
    "string \<Rightarrow> string \<Rightarrow> string option \<Rightarrow> store \<Rightarrow> store option" where
  "set_table_description table_name description database_name s =
     (case split_qualified table_name database_name of (d, t) \<Rightarrow>
        let db = default_db d in
        do {
          s1 \<leftarrow> add_table_plain t (Some db) s;
          tabs \<leftarrow> map_of s1 db;
          cols \<leftarrow> map_of tabs t;
          let cols1 = (case map_of cols table_properties_key of
                         None \<Rightarrow> AList.update table_properties_key [] cols
                       | Some _ \<Rightarrow> cols);
          tp \<leftarrow> map_of cols1 table_properties_key;
          Some (AList.update db (AList.update t
            (AList.update table_properties_key
               (AList.update ''description'' (Str description) tp) cols1) tabs) s1)
        })"

definition add_table ::
    "string \<Rightarrow> string option \<Rightarrow> string option \<Rightarrow> store \<Rightarrow> store option" where
  \<comment> \<open>the body of \<open>add_table\<close> is \<^const>\<open>add_table_plain\<close>; with a non-empty description it
      then calls \<open>set_table_description\<close> on the resolved names (which calls \<open>add_table\<close>
      again, without a description)\<close>
  "add_table table_name database_name description s =
     (case split_qualified table_name database_name of (d, t) \<Rightarrow>
        do {
          s1 \<leftarrow> add_table_plain table_name database_name s;
          (case description of
             None \<Rightarrow> Some s1
           | Some text \<Rightarrow>
               if text = [] then Some s1
               else set_table_description t text (Some (default_db d)) s1)
        })"

definition add_column ::
    "string \<Rightarrow> string \<Rightarrow> string option \<Rightarrow> props option \<Rightarrow> string option \<Rightarrow> store
      \<Rightarrow> store option" where
  "add_column column_name table_name database_name properties description s =
     (case split_qualified table_name database_name of (d, t) \<Rightarrow>
        do {
          s1 \<leftarrow> add_table t d None s;
          let db = default_db d;
          let properties1 = (case properties of None \<Rightarrow> [] | Some p \<Rightarrow> p);
          let properties2 = (case description of
                None \<Rightarrow> properties1
              | Some text \<Rightarrow>
                  if text = [] then properties1
                  else AList.update ''description'' (Str text) properties1);
          tabs \<leftarrow> map_of s1 db;
          cols \<leftarrow> map_of tabs t;
          Some (AList.update db (AList.update t
            (AList.update column_name properties2 cols) tabs) s1)
        })"


definition column_exists :: "string \<Rightarrow> string \<Rightarrow> string option \<Rightarrow> store \<Rightarrow> bool" where
  "column_exists table_name column_name database_name s =
     (case split_qualified table_name database_name of (d, t) \<Rightarrow>
        (case map_of s (default_db d) of
           None \<Rightarrow> False
         | Some tabs \<Rightarrow>
             (case map_of tabs t of
                None \<Rightarrow> False
              | Some cols \<Rightarrow> map_of cols column_name \<noteq> None)))"


definition get_columns :: "string \<Rightarrow> string option \<Rightarrow> store \<Rightarrow> string list" where
  \<comment> \<open>\<open>list(self.metadata[database_name][table_name].keys())\<close>, or \<open>[]\<close>\<close>
  "get_columns table_name database_name s =
     (case split_qualified table_name database_name of (d, t) \<Rightarrow>
        (case map_of s (default_db d) of
           None \<Rightarrow> []
         | Some tabs \<Rightarrow>
             (case map_of tabs t of
                None \<Rightarrow> []
              | Some cols \<Rightarrow> map fst cols)))"














section \<open>Column sources and derived names (analyzer.py)\<close>

definition qualified_ref :: "string \<Rightarrow> ((string \<times> string) \<times> string) option" where
  \<comment> \<open>\<open>([a-zA-Z0-9_]+)\.([a-zA-Z0-9_]+)\<close>\<close>
  "qualified_ref s =
     do {
       (g1, s1) \<leftarrow> run1 is_word s;
       s2 \<leftarrow> lit ''.'' s1;
       (g2, s3) \<leftarrow> run1 is_word s2;
       Some ((g1, g2), s3)
     }"

definition function_call :: "string \<Rightarrow> ((string \<times> string) \<times> string) option" where
  \<comment> \<open>\<open>([a-zA-Z0-9_]+)\(([^)]+)\)\<close>\<close>
  "function_call s =
     do {
       (g1, s1) \<leftarrow> run1 is_word s;
       s2 \<leftarrow> lit ''('' s1;
       (g2, s3) \<leftarrow> run1 (\<lambda>c. c \<noteq> CHR '')'') s2;
       s4 \<leftarrow> lit '')'' s3;
       Some ((g1, g2), s4)
     }"

definition function_name :: "string \<Rightarrow> (string \<times> string) option" where
  \<comment> \<open>\<open>([a-zA-Z0-9_]+)\(\<close>\<close>
  "function_name s =
     do {
       (g1, s1) \<leftarrow> run1 is_word s;
       s2 \<leftarrow> lit ''('' s1;
       Some (g1, s2)
     }"

definition simple_name :: "string \<Rightarrow> bool" where
  \<comment> \<open>\<open>re.match(r'^[a-zA-Z0-9_]+$', s)\<close>; \<open>$\<close> also matches before a final newline\<close>
  "simple_name s \<longleftrightarrow>
     (case run1 is_word s of
        Some (g, rest) \<Rightarrow> rest = [] \<or> rest = [CHR 0x0A]
      | None \<Rightarrow> False)"

text \<open>
  \<open>_extract_column_source\<close> and \<open>_derive_column_name\<close>; the first reads the metadata store
  of the analyzer, passed here as an argument.
\<close>

definition extract_column_source :: "store \<Rightarrow> string \<Rightarrow> string list \<Rightarrow> string" where
  "extract_column_source metadata_store column_expr source_tables =
     (case search qualified_ref column_expr of
        Some ((g1, g2), _) \<Rightarrow> g1 @ ''.'' @ g2
      | None \<Rightarrow>
          (case search function_call column_expr of
             Some ((func_name, func_args), _) \<Rightarrow>
               (case search qualified_ref func_args of
                  Some ((g1, g2), _) \<Rightarrow> g1 @ ''.'' @ g2 @ '' (in '' @ func_name @ '')''
                | None \<Rightarrow> ''Function: '' @ func_name @ ''('' @ func_args @ '')'')
           | None \<Rightarrow>
               if simple_name column_expr \<and> source_tables \<noteq> [] then
                 (case find (\<lambda>table. column_exists table column_expr None metadata_store)
                         source_tables of
                    Some table \<Rightarrow> table @ ''.'' @ column_expr
                  | None \<Rightarrow> column_expr)
               else column_expr))"

definition derive_column_name :: "string \<Rightarrow> string" where
  "derive_column_name expr =
     (case search qualified_ref expr of
        Some ((g1, g2), _) \<Rightarrow> g2
      | None \<Rightarrow>
          (case search function_name expr of
             Some (func_name, _) \<Rightarrow> func_name @ ''_result''
           | None \<Rightarrow>
               if length expr \<le> 30 \<and> list_all is_word expr then expr
               else ''derived_column''))"

section \<open>Column mappings of INSERT statements (analyzer.py)\<close>

text \<open>
  The first branch of \<open>_extract_column_mappings\<close>, the one for \<open>INSERT\<close> statements:
  \<open>insert_branch\<close> is its guard and \<open>insert_column_mappings\<close> its body, the value the method
  returns when the guard holds. The other branch, for \<open>CREATE ... SELECT\<close>, is not part
  of this development.

  \<open>INSERT\s+INTO\s+[^\s(]+\s*\(([^)]+)\)\<close> under \<open>re.IGNORECASE\<close>:
\<close>

definition insert_branch :: "string \<Rightarrow> bool" where
  \<comment> \<open>\<open>"INSERT INTO" in sql_text.upper()\<close>\<close>
  "insert_branch sql_text \<longleftrightarrow> contains (upper sql_text) ''INSERT INTO''"

definition insert_cols_pattern :: "string \<Rightarrow> (string \<times> string) option" where
  "insert_cols_pattern s =
     do {
       s1 \<leftarrow> lit_ci ''INSERT'' s;
       s2 \<leftarrow> ws1 s1;
       s3 \<leftarrow> lit_ci ''INTO'' s2;
       s4 \<leftarrow> ws1 s3;
       (name, s5) \<leftarrow> run1 (\<lambda>c. \<not> is_space c \<and> c \<noteq> CHR ''('') s4;
       s6 \<leftarrow> lit ''('' (ws0 s5);
       (cols_text, s7) \<leftarrow> run1 (\<lambda>c. c \<noteq> CHR '')'') s6;
       s8 \<leftarrow> lit '')'' s7;
       Some (cols_text, s8)
     }"

text \<open>
  \<open>SELECT\s+(.+?)\s+FROM\<close> under \<open>re.IGNORECASE\<close>. The dot matches every character but the
  newline. The lazy group takes one character, then one more each time \<open>\s+FROM\<close> does not
  match right after it (\<open>lazy_until_from\<close>, the group read so far as first argument). The
  \<open>\s+\<close> before the group is greedy, and here backtracking matters, because the dot
  matches blanks too: the engine tries the whole run of white space first, then one
  character less, down to one (\<open>ws1_choices\<close>), and keeps the first that gives a match.
\<close>

fun lazy_until_from :: "string \<Rightarrow> string \<Rightarrow> (string \<times> string) option" where
  "lazy_until_from g [] = None"
| "lazy_until_from g (c # cs) =
     (if c = CHR 0x0A then None
      else (case do { r \<leftarrow> ws1 cs; lit_ci ''FROM'' r } of
              Some rest \<Rightarrow> Some (g @ [c], rest)
            | None \<Rightarrow> lazy_until_from (g @ [c]) cs))"

fun first_match :: "('a \<Rightarrow> 'b option) \<Rightarrow> 'a list \<Rightarrow> 'b option" where
  "first_match f [] = None"
| "first_match f (x # xs) = (case f x of Some r \<Rightarrow> Some r | None \<Rightarrow> first_match f xs)"

definition ws1_choices :: "string \<Rightarrow> string list" where
  "ws1_choices s = map (\<lambda>k. drop k s) (rev [1 ..< Suc (length (takeWhile is_space s))])"

definition select_pattern :: "string \<Rightarrow> (string \<times> string) option" where
  "select_pattern s =
     do {
       s1 \<leftarrow> lit_ci ''SELECT'' s;
       first_match (lazy_until_from []) (ws1_choices s1)
     }"

text \<open>
  The loop that splits the projection text at the commas outside parentheses, on the
  state \<open>current_column\<close>, \<open>parenthesis_level\<close>, \<open>source_columns\<close>, with the step after the
  loop that adds the last column; then the loop over \<open>enumerate(target_columns)\<close> that
  fills the dictionary \<open>column_mappings\<close>, an association list here.
\<close>

fun split_columns :: "string \<Rightarrow> int \<Rightarrow> string list \<Rightarrow> string \<Rightarrow> string list" where
  "split_columns current_column parenthesis_level source_columns [] =
     (if current_column \<noteq> [] then source_columns @ [strip current_column] else source_columns)"
| "split_columns current_column parenthesis_level source_columns (c # cs) =
     (if c = CHR ''('' then
        split_columns (current_column @ [c]) (parenthesis_level + 1) source_columns cs
      else if c = CHR '')'' then
        split_columns (current_column @ [c]) (parenthesis_level - 1) source_columns cs
      else if c = CHR '','' \<and> parenthesis_level = 0 then
        split_columns [] parenthesis_level (source_columns @ [strip current_column]) cs
      else split_columns (current_column @ [c]) parenthesis_level source_columns cs)"

type_synonym column_mappings = "(string \<times> string list) list"

fun map_columns :: "store \<Rightarrow> string \<Rightarrow> string list \<Rightarrow> string list \<Rightarrow> nat \<Rightarrow> string list
    \<Rightarrow> column_mappings \<Rightarrow> column_mappings" where
  "map_columns metadata_store target_table source_tables source_columns i [] m = m"
| "map_columns metadata_store target_table source_tables source_columns i (target_col # cols) m =
     map_columns metadata_store target_table source_tables source_columns (i + 1) cols
       (if i < length source_columns then
          AList.update (target_table @ ''.'' @ target_col)
            [extract_column_source metadata_store (source_columns ! i) source_tables] m
        else m)"

definition insert_column_mappings ::
    "store \<Rightarrow> string \<Rightarrow> string \<Rightarrow> string list \<Rightarrow> column_mappings" where
  "insert_column_mappings metadata_store sql_text target_table source_tables =
     (case search insert_cols_pattern sql_text of
        None \<Rightarrow> []
      | Some (cols_text, _) \<Rightarrow>
          let target_columns = map strip (split_on (CHR '','') cols_text) in
          (case search select_pattern sql_text of
             None \<Rightarrow> []
           | Some (source_columns_text, _) \<Rightarrow>
               let source_columns = split_columns [] 0 [] source_columns_text in
               map_columns metadata_store target_table source_tables source_columns 0
                 target_columns []))"

section \<open>Properties of the query type classification\<close>

lemma startswith_append: "startswith t p \<Longrightarrow> \<exists>r. t = p @ r"
  unfolding startswith_def by (metis append_take_drop_id)

text \<open>
  C8. The claim says that a statement beginning \<open>CREATE OR REPLACE VIEW\<close> (or
  \<open>... TEMP TABLE\<close>, \<open>... PROCEDURE\<close>) is classified as a view (table, procedure) and
  never falls through to UNKNOWN. The code compares plain prefixes and skips no
  modifier: every statement whose trimmed upper-case text begins with
  \<open>CREATE OR REPLACE\<close> is classified UNKNOWN.
\<close>

theorem extract_query_type_or_replace_unknown:
  "startswith (upper (strip sql_text)) ''CREATE OR REPLACE''
   \<Longrightarrow> extract_query_type sql_text = ''UNKNOWN''"
proof -
  assume "startswith (upper (strip sql_text)) ''CREATE OR REPLACE''"
  then obtain r where t: "upper (strip sql_text) = ''CREATE OR REPLACE'' @ r"
    using startswith_append by blast
  show ?thesis
    unfolding extract_query_type_def Let_def t by (simp add: startswith_def)
qed

theorem extract_query_type_or_replace_unknown_witness:
  "extract_query_type ''CREATE OR REPLACE VIEW v AS SELECT a.x FROM a'' = ''UNKNOWN''
   \<and> extract_query_type ''create or replace temp table t as select 1'' = ''UNKNOWN''
   \<and> extract_query_type ''CREATE OR REPLACE PROCEDURE p (IN a INT)'' = ''UNKNOWN''"
proof -
  have a: "startswith (upper (strip ''CREATE OR REPLACE VIEW v AS SELECT a.x FROM a''))
      ''CREATE OR REPLACE''"
    by code_simp
  have b: "startswith (upper (strip ''create or replace temp table t as select 1''))
      ''CREATE OR REPLACE''"
    by code_simp
  have c: "startswith (upper (strip ''CREATE OR REPLACE PROCEDURE p (IN a INT)''))
      ''CREATE OR REPLACE''"
    by code_simp
  show ?thesis
    using extract_query_type_or_replace_unknown [OF a]
      extract_query_type_or_replace_unknown [OF b]
      extract_query_type_or_replace_unknown [OF c]
    by blast
qed

section \<open>Properties of the statement splitter\<close>

subsection \<open>Stripping white space\<close>

lemma trimmed_strip:
  "strip s = [] \<or> (\<not> is_space (hd (strip s)) \<and> \<not> is_space (last (strip s)))"
  unfolding strip_def
  by (metis dropWhile_eq_self_iff hd_dropWhile hd_rev last_appendR last_rev
      rev.simps(1) takeWhile_dropWhile_id)

lemma strip_all_space: "\<forall>c \<in> set w. is_space c \<Longrightarrow> strip w = []"
proof -
  assume "\<forall>c \<in> set w. is_space c"
  then have "dropWhile is_space w = []" by (induction w) auto
  then show ?thesis unfolding strip_def by (simp only: rev.simps dropWhile.simps)
qed

lemma dropWhile_keeps:
  "m \<noteq> [] \<Longrightarrow> \<not> P (hd m) \<Longrightarrow> \<exists>u. dropWhile P (x @ m @ y) = u @ m @ y"
proof (induction x)
  case Nil
  then show ?case by (cases m) auto
next
  case (Cons c x)
  then show ?case by (cases "P c") (auto intro: exI [of _ "c # x"])
qed

lemma strip_keeps:
  assumes "m \<noteq> []" "\<not> is_space (hd m)" "\<not> is_space (last m)"
  shows "\<exists>u v. strip (x @ m @ y) = u @ m @ v"
proof -
  obtain u where u: "dropWhile is_space (x @ m @ y) = u @ m @ y"
    using dropWhile_keeps [where m = m and P = is_space, OF assms(1,2)] by blast
  have "rev m \<noteq> []" "\<not> is_space (hd (rev m))" using assms by (simp_all add: hd_rev)
  then obtain w where w: "dropWhile is_space (rev y @ rev m @ rev u) = w @ rev m @ rev u"
    using dropWhile_keeps [where m = "rev m" and P = is_space] by blast
  have "strip (x @ m @ y) = rev (w @ rev m @ rev u)"
    unfolding strip_def u using w by simp
  then have "strip (x @ m @ y) = u @ m @ rev w" by simp
  then show ?thesis by blast
qed

lemma strip_keeps_nonempty:
  assumes "m \<noteq> []" "\<not> is_space (hd m)" "\<not> is_space (last m)"
  shows "strip (x @ m @ y) \<noteq> []"
  using strip_keeps [OF assms, of x y] assms(1) by auto

subsection \<open>Comment removal on text without comment characters\<close>

lemma strip_line_comments_id: "CHR ''-'' \<notin> set s \<Longrightarrow> strip_line_comments s = s"
  by (induction s rule: strip_line_comments.induct) auto

lemma strip_block_comments_id: "CHR ''/'' \<notin> set s \<Longrightarrow> strip_block_comments s = s"
  by (induction s rule: strip_block_comments.induct) auto

subsection \<open>The loop\<close>

lemma split_on_not_Nil: "split_on d s \<noteq> []"
  by (induction s) (auto split: list.splits)

lemma add_statement_trimmed:
  assumes "\<forall>s \<in> set ss. s \<noteq> [] \<and> \<not> is_space (hd s) \<and> \<not> is_space (last s)"
  shows "\<forall>s \<in> set (add_statement c ss). s \<noteq> [] \<and> \<not> is_space (hd s) \<and> \<not> is_space (last s)"
  using assms trimmed_strip [of c] by (auto simp: add_statement_def)

lemma split_loop_trimmed:
  assumes "\<forall>s \<in> set ss. s \<noteq> [] \<and> \<not> is_space (hd s) \<and> \<not> is_space (last s)"
  shows "\<forall>s \<in> set (fst (split_loop iq qc cur ss t)).
           s \<noteq> [] \<and> \<not> is_space (hd s) \<and> \<not> is_space (last s)"
  using assms
proof (induction t arbitrary: iq qc cur ss)
  case Nil
  then show ?case by simp
next
  case (Cons c t)
  have a: "\<forall>s \<in> set (fst (split_loop iq qc [] (add_statement cur ss) t)).
      s \<noteq> [] \<and> \<not> is_space (hd s) \<and> \<not> is_space (last s)"
    by (rule Cons.IH) (rule add_statement_trimmed [OF Cons.prems])
  have b: "\<And>iq1 qc1 cur1. \<forall>s \<in> set (fst (split_loop iq1 qc1 cur1 ss t)).
      s \<noteq> [] \<and> \<not> is_space (hd s) \<and> \<not> is_space (last s)"
    by (rule Cons.IH) (rule Cons.prems)
  show ?case using a b by (simp only: split_loop.simps split: if_splits) simp
qed

lemma split_loop_literal:
  "is_quote q \<Longrightarrow> q \<notin> set l \<Longrightarrow>
   split_loop True (Some q) cur stmts (l @ q # rest)
     = split_loop False None (cur @ l @ [q]) stmts rest"
  by (induction l arbitrary: cur) auto

lemma split_loop_no_semicolon:
  "CHR '';'' \<notin> set u \<Longrightarrow> split_loop iq qc cur stmts u = (stmts, cur @ u)"
  by (induction u arbitrary: iq qc cur) auto

lemma split_loop_append:
  "split_loop iq qc cur ss (a @ r) =
     (case split_loop iq qc cur ss a of (ss1, c1) \<Rightarrow>
        split_loop (fst (scan_state (iq, qc) a)) (snd (scan_state (iq, qc) a)) c1 ss1 r)"
  by (induction a arbitrary: iq qc cur ss) auto

lemma split_loop_mono: "set ss \<subseteq> set (fst (split_loop iq qc cur ss t))"
proof (induction t arbitrary: iq qc cur ss)
  case Nil
  then show ?case by simp
next
  case (Cons c t)
  have a: "set ss \<subseteq> set (fst (split_loop iq qc [] (add_statement cur ss) t))"
    using Cons [where iq = iq and qc = qc and cur = "[]" and ss = "add_statement cur ss"]
    by (auto simp: add_statement_def split: if_splits)
  show ?case using a Cons by auto
qed

lemma split_loop_emits:
  "split_loop iq qc cur ss t = (ss1, c1) \<Longrightarrow>
   \<exists>t1. set (add_statement (cur @ t1) ss) \<subseteq> set (add_statement c1 ss1)"
proof (induction t arbitrary: iq qc cur ss)
  case Nil
  then show ?case by (intro exI [of _ "[]"]) simp
next
  case (Cons c t)
  show ?case
  proof (cases "is_quote c \<and> (\<not> iq \<or> qc = Some c)")
    case True
    with Cons.prems have
      "split_loop (\<not> iq) (if \<not> iq then Some c else None) (cur @ [c]) ss t = (ss1, c1)"
      by simp
    from Cons.IH [OF this] obtain t1 where
      "set (add_statement ((cur @ [c]) @ t1) ss) \<subseteq> set (add_statement c1 ss1)" by blast
    then show ?thesis by (intro exI [of _ "c # t1"]) simp
  next
    case nq: False
    show ?thesis
    proof (cases "c = CHR '';'' \<and> \<not> iq")
      case True
      with nq Cons.prems have l: "split_loop iq qc [] (add_statement cur ss) t = (ss1, c1)"
        by auto
      have "set (add_statement cur ss) \<subseteq> set ss1"
        using split_loop_mono [of "add_statement cur ss" iq qc "[]" t] l by simp
      also have "\<dots> \<subseteq> set (add_statement c1 ss1)" by (auto simp: add_statement_def)
      finally show ?thesis by (intro exI [of _ "[]"]) simp
    next
      case False
      with nq Cons.prems have "split_loop iq qc (cur @ [c]) ss t = (ss1, c1)" by auto
      from Cons.IH [OF this] obtain t1 where
        "set (add_statement ((cur @ [c]) @ t1) ss) \<subseteq> set (add_statement c1 ss1)" by blast
      then show ?thesis by (intro exI [of _ "c # t1"]) simp
    qed
  qed
qed

lemma scan_state_inv:
  "scan_state (iq, qc) a = (i1, q1) \<Longrightarrow> (iq \<longleftrightarrow> qc \<noteq> None) \<Longrightarrow> (i1 \<longleftrightarrow> q1 \<noteq> None)"
proof (induction a arbitrary: iq qc)
  case Nil
  then show ?case by auto
next
  case (Cons c a)
  show ?case
  proof (cases "is_quote c \<and> (\<not> iq \<or> qc = Some c)")
    case True
    then have "scan_state (\<not> iq, if \<not> iq then Some c else None) a = (i1, q1)"
      using Cons.prems(1) by simp
    moreover have "(\<not> iq) \<longleftrightarrow> (if \<not> iq then Some c else None) \<noteq> None" by simp
    ultimately show ?thesis by (rule Cons.IH)
  next
    case False
    then have "scan_state (iq, qc) a = (i1, q1)" using Cons.prems(1) by auto
    then show ?thesis using Cons.prems(2) by (rule Cons.IH)
  qed
qed

lemma scan_state_outside:
  assumes "\<not> fst (scan_state (False, None) a)"
  shows "scan_state (False, None) a = (False, None)"
proof -
  obtain i1 q1 where s: "scan_state (False, None) a = (i1, q1)"
    by (cases "scan_state (False, None) a")
  from scan_state_inv [OF s] have "i1 \<longleftrightarrow> q1 \<noteq> None" by simp
  with assms s show ?thesis by simp
qed

lemma split_loop_no_quote:
  "\<forall>c \<in> set t. \<not> is_quote c \<Longrightarrow>
   (case split_loop False None cur ss t of (ss1, c1) \<Rightarrow> add_statement c1 ss1)
     = ss @ filter (\<lambda>s. s \<noteq> []) (map strip
         (case split_on (CHR '';'') t of p # ps \<Rightarrow> (cur @ p) # ps | [] \<Rightarrow> []))"
proof (induction t arbitrary: cur ss)
  case Nil
  then show ?case by (simp add: add_statement_def)
next
  case (Cons c t)
  obtain p ps where sp: "split_on (CHR '';'') t = p # ps"
    using split_on_not_Nil [of "CHR '';''" t] by (cases "split_on (CHR '';'') t") auto
  have nq: "\<not> is_quote c" "\<forall>c \<in> set t. \<not> is_quote c" using Cons.prems by simp_all
  show ?case
  proof (cases "c = CHR '';''")
    case True
    show ?thesis using Cons.IH [OF nq(2), of "[]" "add_statement cur ss"] nq(1) True
      by (simp add: sp add_statement_def)
  next
    case False
    show ?thesis using Cons.IH [OF nq(2), of "cur @ [c]" ss] nq(1) False
      by (simp add: sp)
  qed
qed

subsection \<open>The splitter\<close>

lemma extract_sql_statements_trimmed:
  "\<forall>s \<in> set (extract_sql_statements x). s \<noteq> [] \<and> \<not> is_space (hd s) \<and> \<not> is_space (last s)"
proof -
  obtain ss c where sc: "split_loop False None [] [] (sql_content x) = (ss, c)"
    by (cases "split_loop False None [] [] (sql_content x)")
  have "\<forall>s \<in> set (fst (split_loop False None [] [] (sql_content x))).
      s \<noteq> [] \<and> \<not> is_space (hd s) \<and> \<not> is_space (last s)"
    by (rule split_loop_trimmed) simp
  then have "\<forall>s \<in> set ss. s \<noteq> [] \<and> \<not> is_space (hd s) \<and> \<not> is_space (last s)"
    by (simp add: sc)
  then have "\<forall>s \<in> set (add_statement c ss).
      s \<noteq> [] \<and> \<not> is_space (hd s) \<and> \<not> is_space (last s)"
    by (rule add_statement_trimmed)
  moreover have "extract_sql_statements x = add_statement c ss"
    using sc by (simp add: extract_sql_statements_def sql_content_def)
  ultimately show ?thesis by simp
qed

lemma extract_sql_statements_keeps_literal:
  assumes c: "sql_content x = a @ q # l @ q # b"
    and a: "\<not> fst (scan_state (False, None) a)"
    and q: "is_quote q" "q \<notin> set l"
  shows "\<exists>s \<in> set (extract_sql_statements x). \<exists>u v. s = u @ q # l @ q # v"
proof -
  let ?m = "q # l @ [q]"
  have nq: "\<not> is_space q" using q(1) by (auto simp: is_quote_def is_space_def)
  have m: "?m \<noteq> []" "\<not> is_space (hd ?m)" "\<not> is_space (last ?m)" using nq by simp_all
  obtain ss1 c1 where l1: "split_loop False None [] [] a = (ss1, c1)"
    by (cases "split_loop False None [] [] a")
  have st: "scan_state (False, None) a = (False, None)"
    using a by (rule scan_state_outside)
  obtain ss2 c2 where l2: "split_loop False None (c1 @ q # l @ [q]) ss1 b = (ss2, c2)"
    by (cases "split_loop False None (c1 @ q # l @ [q]) ss1 b")
  have "split_loop False None [] [] (a @ q # l @ q # b)
      = split_loop False None c1 ss1 (q # l @ q # b)"
    by (simp add: split_loop_append l1 st)
  also have "\<dots> = split_loop True (Some q) (c1 @ [q]) ss1 (l @ q # b)" using q by simp
  also have "\<dots> = split_loop False None ((c1 @ [q]) @ l @ [q]) ss1 b"
    by (rule split_loop_literal [OF q])
  finally have whole: "split_loop False None [] [] (sql_content x) = (ss2, c2)"
    using l2 c by simp
  obtain t1 where
    t1: "set (add_statement ((c1 @ q # l @ [q]) @ t1) ss1) \<subseteq> set (add_statement c2 ss2)"
    using split_loop_emits [OF l2] by blast
  have ne: "strip (c1 @ ?m @ t1) \<noteq> []" by (rule strip_keeps_nonempty [OF m])
  obtain u v where uv: "strip (c1 @ ?m @ t1) = u @ ?m @ v" using strip_keeps [OF m] by blast
  have "strip (c1 @ ?m @ t1) \<in> set (add_statement c2 ss2)"
    using t1 ne by (auto simp: add_statement_def)
  moreover have "extract_sql_statements x = add_statement c2 ss2"
    using whole by (simp add: extract_sql_statements_def sql_content_def)
  ultimately show ?thesis using uv by auto
qed

lemma extract_sql_statements_trailing:
  assumes c: "sql_content x = p @ u"
    and p: "p = [] \<or> (last p = CHR '';'' \<and> \<not> fst (scan_state (False, None) (butlast p)))"
    and u: "CHR '';'' \<notin> set u" "strip u \<noteq> []"
  shows "extract_sql_statements x \<noteq> [] \<and> last (extract_sql_statements x) = strip u"
proof -
  have "\<exists>ss1. split_loop False None [] [] p = (ss1, [])"
  proof (cases "p = []")
    case True
    then show ?thesis by simp
  next
    case False
    then have p1: "p = butlast p @ '';''" "\<not> fst (scan_state (False, None) (butlast p))"
      using p append_butlast_last_id [of p] by auto
    obtain ss0 c0 where l0: "split_loop False None [] [] (butlast p) = (ss0, c0)"
      by (cases "split_loop False None [] [] (butlast p)")
    have "split_loop False None [] [] (butlast p @ '';'') = (add_statement c0 ss0, [])"
      by (simp add: split_loop_append l0 scan_state_outside [OF p1(2)] is_quote_def)
    then show ?thesis using p1(1) by metis
  qed
  then obtain ss1 where l1: "split_loop False None [] [] p = (ss1, [])" by blast
  have "split_loop False None [] [] (p @ u) = (ss1, u)"
    by (simp add: split_loop_append l1 split_loop_no_semicolon [OF u(1)])
  then have "extract_sql_statements x = add_statement u ss1"
    using c by (simp add: extract_sql_statements_def sql_content_def)
  then show ?thesis using u(2) by (simp add: add_statement_def)
qed

lemma extract_sql_statements_no_quote:
  assumes "\<forall>c \<in> set (sql_content x). \<not> is_quote c"
  shows "extract_sql_statements x
    = filter (\<lambda>s. s \<noteq> []) (map strip (split_on (CHR '';'') (sql_content x)))"
proof -
  obtain p ps where sp: "split_on (CHR '';'') (sql_content x) = p # ps"
    using split_on_not_Nil [of "CHR '';''" "sql_content x"]
    by (cases "split_on (CHR '';'') (sql_content x)") auto
  show ?thesis
    using split_loop_no_quote [OF assms, of "[]" "[]"]
    by (simp add: extract_sql_statements_def sql_content_def [symmetric] sp split: prod.splits)
qed

lemma extract_sql_statements_blank:
  assumes "\<forall>c \<in> set w. is_space c"
  shows "extract_sql_statements w = []"
proof -
  have ns: "\<not> is_space (CHR ''-'')" "\<not> is_space (CHR ''/'')" "\<not> is_space (CHR '';'')"
    by (simp_all add: is_space_def)
  have n1: "CHR ''-'' \<notin> set w" using assms ns(1) by blast
  have n2: "CHR ''/'' \<notin> set w" using assms ns(2) by blast
  have n3: "CHR '';'' \<notin> set w" using assms ns(3) by blast
  have l: "split_loop False None [] [] w = ([], w)"
    using split_loop_no_semicolon [OF n3, of False None "[]" "[]"] by simp
  have "add_statement w [] = []"
    by (simp add: add_statement_def strip_all_space [OF assms])
  then show ?thesis
    unfolding extract_sql_statements_def
    by (simp only: strip_line_comments_id [OF n1] strip_block_comments_id [OF n2] l Let_def
        prod.case)
qed

lemma extract_sql_statements_example:
  "extract_sql_statements ''INSERT INTO t VALUES ('a;b');'' = [''INSERT INTO t VALUES ('a;b')'']"
  by code_simp

text \<open>
  C4. The claim holds of the text that is left once the comments are replaced
  (\<^const>\<open>sql_content\<close>), not of the input as written. For every input \<open>x\<close>:
  \<^item> a literal \<open>q l q\<close> of the comment-free text that starts where the scan of the text
    before it is outside a literal, \<open>l\<close> without \<open>q\<close> but with any number of \<open>;\<close>, lies
    whole inside one returned statement, so no \<open>;\<close> in it was taken as a separator;
  \<^item> every returned statement is non-empty and neither starts nor ends with white space;
  \<^item> when the comment-free text ends with \<open>u\<close>, free of \<open>;\<close> and not blank, and \<open>u\<close> starts
    the text or follows a \<open>;\<close> read outside a literal, the last returned statement is
    \<open>u\<close> trimmed: the trailing statement without terminator is included;
  \<^item> when the comment-free text has no quote character, the result is exactly its pieces
    between semicolons, in order, each trimmed, the blank ones dropped;
  \<^item> \<open>INSERT INTO t VALUES ('a;b');\<close> gives exactly one statement;
  \<^item> an input of white space only, the empty input included, gives no statement.
\<close>

theorem extract_sql_statements_spec:
  "(sql_content x = a @ q # l @ q # b \<and> \<not> fst (scan_state (False, None) a)
      \<and> is_quote q \<and> q \<notin> set l \<longrightarrow>
      (\<exists>s \<in> set (extract_sql_statements x). \<exists>u v. s = u @ q # l @ q # v))
   \<and> (\<forall>s \<in> set (extract_sql_statements x).
        s \<noteq> [] \<and> \<not> is_space (hd s) \<and> \<not> is_space (last s))
   \<and> (sql_content x = p @ u
      \<and> (p = [] \<or> (last p = CHR '';'' \<and> \<not> fst (scan_state (False, None) (butlast p))))
      \<and> CHR '';'' \<notin> set u \<and> strip u \<noteq> [] \<longrightarrow>
      extract_sql_statements x \<noteq> [] \<and> last (extract_sql_statements x) = strip u)
   \<and> ((\<forall>c \<in> set (sql_content x). \<not> is_quote c) \<longrightarrow>
      extract_sql_statements x
        = filter (\<lambda>s. s \<noteq> []) (map strip (split_on (CHR '';'') (sql_content x))))
   \<and> extract_sql_statements ''INSERT INTO t VALUES ('a;b');''
        = [''INSERT INTO t VALUES ('a;b')'']
   \<and> ((\<forall>c \<in> set w. is_space c) \<longrightarrow> extract_sql_statements w = [])"
proof (intro conjI impI)
  assume "sql_content x = a @ q # l @ q # b \<and> \<not> fst (scan_state (False, None) a)
      \<and> is_quote q \<and> q \<notin> set l"
  then show "\<exists>s \<in> set (extract_sql_statements x). \<exists>u v. s = u @ q # l @ q # v"
    using extract_sql_statements_keeps_literal [of x a q l b] by blast
next
  show "\<forall>s \<in> set (extract_sql_statements x).
      s \<noteq> [] \<and> \<not> is_space (hd s) \<and> \<not> is_space (last s)"
    by (rule extract_sql_statements_trimmed)
next
  assume h: "sql_content x = p @ u
      \<and> (p = [] \<or> (last p = CHR '';'' \<and> \<not> fst (scan_state (False, None) (butlast p))))
      \<and> CHR '';'' \<notin> set u \<and> strip u \<noteq> []"
  then have t: "extract_sql_statements x \<noteq> [] \<and> last (extract_sql_statements x) = strip u"
    using extract_sql_statements_trailing [of x p u] by blast
  from t show "extract_sql_statements x \<noteq> []" by (rule conjunct1)
  from t show "last (extract_sql_statements x) = strip u" by (rule conjunct2)
next
  assume "\<forall>c \<in> set (sql_content x). \<not> is_quote c"
  then show "extract_sql_statements x
      = filter (\<lambda>s. s \<noteq> []) (map strip (split_on (CHR '';'') (sql_content x)))"
    by (rule extract_sql_statements_no_quote)
next
  show "extract_sql_statements ''INSERT INTO t VALUES ('a;b');''
      = [''INSERT INTO t VALUES ('a;b')'']"
    by (rule extract_sql_statements_example)
next
  assume "\<forall>c \<in> set w. is_space c"
  then show "extract_sql_statements w = []" by (rule extract_sql_statements_blank)
qed

theorem extract_sql_statements_spec_witness:
  "(\<exists>s \<in> set (extract_sql_statements
        (''SELECT '' @ CHR 0x27 # ''a;b'' @ CHR 0x27 # '' FROM t; -- c'')).
      \<exists>u v. s = u @ CHR 0x27 # ''a;b'' @ CHR 0x27 # v)
   \<and> list_all (\<lambda>s. s \<noteq> [] \<and> \<not> is_space (hd s) \<and> \<not> is_space (last s))
       (extract_sql_statements '' a ; ;b '')
   \<and> extract_sql_statements (''SELECT '' @ CHR 0x22 # ''x;'' @ CHR 0x22 # ''; SELECT 2 '') \<noteq> []
   \<and> last (extract_sql_statements (''SELECT '' @ CHR 0x22 # ''x;'' @ CHR 0x22 # ''; SELECT 2 ''))
       = strip '' SELECT 2 ''
   \<and> extract_sql_statements ''a; b;;c --d''
       = filter (\<lambda>s. s \<noteq> []) (map strip (split_on (CHR '';'') (sql_content ''a; b;;c --d'')))
   \<and> extract_sql_statements [CHR '' '', CHR 0x0A, CHR 0x09] = []"
proof -
  note T1 = extract_sql_statements_spec [where q = "CHR 0x27" and l = "''a;b''"
      and a = "''SELECT ''" and b = "'' FROM t;  ''"
      and x = "''SELECT '' @ CHR 0x27 # ''a;b'' @ CHR 0x27 # '' FROM t; -- c''"]
  note T2 = extract_sql_statements_spec [where x = "'' a ; ;b ''"]
  note T3 = extract_sql_statements_spec [where p = "''SELECT '' @ CHR 0x22 # ''x;'' @ CHR 0x22 # '';''"
      and u = "'' SELECT 2 ''"
      and x = "''SELECT '' @ CHR 0x22 # ''x;'' @ CHR 0x22 # ''; SELECT 2 ''"]
  note T4 = extract_sql_statements_spec [where x = "''a; b;;c --d''"]
  note T6 = extract_sql_statements_spec [where w = "[CHR '' '', CHR 0x0A, CHR 0x09]"]
  have h1: "sql_content (''SELECT '' @ CHR 0x27 # ''a;b'' @ CHR 0x27 # '' FROM t; -- c'')
        = ''SELECT '' @ CHR 0x27 # ''a;b'' @ CHR 0x27 # '' FROM t;  ''
      \<and> \<not> fst (scan_state (False, None) ''SELECT '')
      \<and> is_quote (CHR 0x27) \<and> CHR 0x27 \<notin> set ''a;b''"
    by (simp add: sql_content_def is_quote_def)
  have 1: "\<exists>s \<in> set (extract_sql_statements
        (''SELECT '' @ CHR 0x27 # ''a;b'' @ CHR 0x27 # '' FROM t; -- c'')).
      \<exists>u v. s = u @ CHR 0x27 # ''a;b'' @ CHR 0x27 # v"
    using T1 [THEN conjunct1] h1 by (rule mp)
  have 2: "list_all (\<lambda>s. s \<noteq> [] \<and> \<not> is_space (hd s) \<and> \<not> is_space (last s))
       (extract_sql_statements '' a ; ;b '')"
    using T2 [THEN conjunct2, THEN conjunct1] by (simp only: list_all_iff)
  have h3: "sql_content (''SELECT '' @ CHR 0x22 # ''x;'' @ CHR 0x22 # ''; SELECT 2 '')
        = (''SELECT '' @ CHR 0x22 # ''x;'' @ CHR 0x22 # '';'') @ '' SELECT 2 ''
      \<and> (''SELECT '' @ CHR 0x22 # ''x;'' @ CHR 0x22 # '';'' = []
          \<or> (last (''SELECT '' @ CHR 0x22 # ''x;'' @ CHR 0x22 # '';'') = CHR '';''
             \<and> \<not> fst (scan_state (False, None)
                   (butlast (''SELECT '' @ CHR 0x22 # ''x;'' @ CHR 0x22 # '';'')))))
      \<and> CHR '';'' \<notin> set '' SELECT 2 '' \<and> strip '' SELECT 2 '' \<noteq> []"
    by (simp add: sql_content_def is_quote_def strip_def is_space_def)
  have 3: "extract_sql_statements (''SELECT '' @ CHR 0x22 # ''x;'' @ CHR 0x22 # ''; SELECT 2 '') \<noteq> []
      \<and> last (extract_sql_statements (''SELECT '' @ CHR 0x22 # ''x;'' @ CHR 0x22 # ''; SELECT 2 ''))
       = strip '' SELECT 2 ''"
    using T3 [THEN conjunct2, THEN conjunct2, THEN conjunct1] h3 by (rule mp)
  have h4: "\<forall>c \<in> set (sql_content ''a; b;;c --d''). \<not> is_quote c"
    by (simp add: sql_content_def is_quote_def)
  have 4: "extract_sql_statements ''a; b;;c --d''
       = filter (\<lambda>s. s \<noteq> []) (map strip (split_on (CHR '';'') (sql_content ''a; b;;c --d'')))"
    using T4 [THEN conjunct2, THEN conjunct2, THEN conjunct2, THEN conjunct1] h4 by (rule mp)
  have h6: "\<forall>c \<in> set [CHR '' '', CHR 0x0A, CHR 0x09]. is_space c"
    by (simp add: is_space_def)
  have 6: "extract_sql_statements [CHR '' '', CHR 0x0A, CHR 0x09] = []"
    using T6 [THEN conjunct2, THEN conjunct2, THEN conjunct2, THEN conjunct2, THEN conjunct2] h6
    by (rule mp)
  show ?thesis using 1 2 3 4 6 by (intro conjI) simp_all
qed

text \<open>
  The claim as written, about a literal of the input, fails: comments are replaced before
  the quotes are read, and a \<open>--\<close> inside a literal is taken for a comment. In
  \<open>SELECT '--'\<close>, a newline, \<open>, 'a;b'\<close> the comment swallows the quote that closes the first
  literal, so the loop sees the literal \<open>'a;b'\<close> of the input as text outside a literal
  and splits at its \<open>;\<close>, although a scan of the input itself is inside a literal there.
\<close>

theorem extract_sql_statements_comment_marker_in_literal:
  "fst (scan_state (False, None)
      (''SELECT '' @ [CHR 0x27] @ ''--'' @ [CHR 0x27, CHR 0x0A] @ '', '' @ [CHR 0x27] @ ''a''))
   \<and> extract_sql_statements
       (''SELECT '' @ [CHR 0x27] @ ''--'' @ [CHR 0x27, CHR 0x0A] @ '', '' @ [CHR 0x27]
          @ ''a;b'' @ [CHR 0x27])
     = [''SELECT '' @ [CHR 0x27, CHR '' '', CHR 0x0A] @ '', '' @ [CHR 0x27] @ ''a'',
        ''b'' @ [CHR 0x27]]"
  by code_simp

section \<open>Properties of the metadata store\<close>

lemma split_on_no_sep: "p \<in> set (split_on d s) \<Longrightarrow> d \<notin> set p"
  by (induction s arbitrary: p) (auto split: if_splits list.splits)

lemma split_qualified_idem:
  "split_qualified t d = (d1, t1) \<Longrightarrow> split_qualified t1 d1 = (d1, t1)"
  unfolding split_qualified_def
  using split_on_no_sep [of _ "CHR ''.''" t]
  by (auto split: if_splits list.splits)





lemma add_table_empty:
  assumes "split_qualified t d = (d1, t1)"
  shows "add_table t d None [] = Some [(default_db d1, [(t1, [(table_properties_key, [])])])]"
  unfolding add_table_def add_table_plain_def assms
  by (simp add: add_database_def Let_def)

text \<open>
  C5. \<open>get_columns\<close> returns every key of the table's dictionary, the reserved slot
  among them: on a fresh store, after \<open>add_table(t, d)\<close> and \<open>add_column(c, t, d)\<close> with
  \<open>c\<close> another name than the reserved one, \<open>get_columns(t, d)\<close> is the reserved key
  followed by \<open>c\<close>, not \<open>[c]\<close>.
\<close>

theorem get_columns_lists_reserved_slot:
  "c \<noteq> table_properties_key \<Longrightarrow>
   \<exists>s1 s2. add_table t d None [] = Some s1
     \<and> add_column c t d None None s1 = Some s2
     \<and> get_columns t d s2 = [table_properties_key, c]"
proof -
  assume c: "c \<noteq> table_properties_key"
  obtain d1 t1 where sq: "split_qualified t d = (d1, t1)" by (cases "split_qualified t d")
  have idem: "split_qualified t1 d1 = (d1, t1)" using sq by (rule split_qualified_idem)
  let ?s1 = "[(default_db d1, [(t1, [(table_properties_key, [])])])]"
  have 1: "add_table t d None [] = Some ?s1" using sq by (rule add_table_empty)
  have 2: "add_table t1 d1 None ?s1 = Some ?s1"
    unfolding add_table_def add_table_plain_def idem
    by (simp add: add_database_def Let_def)
  have 3: "add_column c t d None None ?s1
      = Some [(default_db d1, [(t1, [(table_properties_key, []), (c, [])])])]"
    unfolding add_column_def sq using c by (simp add: 2 Let_def)
  have 4: "get_columns t d [(default_db d1, [(t1, [(table_properties_key, []), (c, [])])])]
      = [table_properties_key, c]"
    unfolding get_columns_def sq by simp
  show ?thesis using 1 3 4 by simp
qed

theorem get_columns_lists_reserved_slot_witness:
  "\<exists>s1 s2. add_table ''orders'' None None [] = Some s1
     \<and> add_column ''amount'' ''orders'' None None None s1 = Some s2
     \<and> get_columns ''orders'' None s2 = [''_table_properties'', ''amount'']"
  using get_columns_lists_reserved_slot [of "''amount''" "''orders''" None]
  by (simp add: table_properties_key_def)


















section \<open>Properties of the parameter extraction\<close>

lemma set_strip: "set (strip s) \<subseteq> set s"
  unfolding strip_def by (auto dest!: set_dropWhileD)

lemma add_params_no_comma:
  "\<forall>p \<in> set ps. CHR '','' \<notin> set p \<Longrightarrow>
   \<forall>p \<in> set ins \<union> set outs. CHR '','' \<notin> set p \<Longrightarrow>
   \<forall>p \<in> set (fst (add_params ps (ins, outs))) \<union> set (snd (add_params ps (ins, outs))).
      CHR '','' \<notin> set p"
proof (induction ps arbitrary: ins outs)
  case Nil
  then show ?case by simp
next
  case (Cons a ps)
  have a: "CHR '','' \<notin> set (strip a)" using Cons.prems(1) set_strip [of a] by auto
  have ps: "\<forall>p \<in> set ps. CHR '','' \<notin> set p" using Cons.prems(1) by simp
  have 1: "\<forall>p \<in> set (ins @ [strip a]) \<union> set outs. CHR '','' \<notin> set p"
    using Cons.prems(2) a by auto
  have 2: "\<forall>p \<in> set ins \<union> set (outs @ [strip a]). CHR '','' \<notin> set p"
    using Cons.prems(2) a by auto
  have 3: "\<forall>p \<in> set (ins @ [strip a]) \<union> set (outs @ [strip a]). CHR '','' \<notin> set p"
    using Cons.prems(2) a by auto
  show ?case
    using Cons.IH [OF ps 1] Cons.IH [OF ps 2] Cons.IH [OF ps 3]
    by (simp add: Let_def)
qed

lemma fold_add_params_no_comma:
  "\<forall>p \<in> set (fst acc) \<union> set (snd acc). CHR '','' \<notin> set p \<Longrightarrow>
   \<forall>p \<in> set (fst (fold (\<lambda>params_text. add_params (split_on (CHR '','') params_text)) ms acc))
        \<union> set (snd (fold (\<lambda>params_text. add_params (split_on (CHR '','') params_text)) ms acc)).
      CHR '','' \<notin> set p"
proof (induction ms arbitrary: acc)
  case Nil
  then show ?case by simp
next
  case (Cons m ms)
  obtain ins outs where acc: "acc = (ins, outs)" by (cases acc)
  have "\<forall>p \<in> set (split_on (CHR '','') m). CHR '','' \<notin> set p"
    using split_on_no_sep by blast
  then have "\<forall>p \<in> set (fst (add_params (split_on (CHR '','') m) (ins, outs)))
      \<union> set (snd (add_params (split_on (CHR '','') m) (ins, outs))). CHR '','' \<notin> set p"
    using Cons.prems unfolding acc by (intro add_params_no_comma) simp_all
  then show ?case unfolding acc by (simp add: Cons.IH)
qed

lemma extract_stored_procedure_params_no_comma:
  "\<forall>p \<in> set (fst (extract_stored_procedure_params x)) \<union> set (snd (extract_stored_procedure_params x)).
      CHR '','' \<notin> set p"
  unfolding extract_stored_procedure_params_def
  by (rule fold_add_params_no_comma) simp

text \<open>
  C9. The parameter text is split at every comma, with no regard to parentheses, and it
  ends at the first \<open>)\<close>: no parameter that is returned contains a comma, for any input.
  On \<open>CREATE PROCEDURE p (IN price DECIMAL(10,2))\<close> the parameter comes back in two
  pieces, \<open>IN price DECIMAL(10\<close> and \<open>2\<close>, both in the input list. The other two parts
  of the claim hold on their example: a parameter with \<open>INOUT\<close> goes to both lists and one
  without direction keyword to the input list.
\<close>

theorem extract_stored_procedure_params_splits_at_every_comma:
  "(\<forall>p \<in> set (fst (extract_stored_procedure_params sql_text))
        \<union> set (snd (extract_stored_procedure_params sql_text)). CHR '','' \<notin> set p)
   \<and> extract_stored_procedure_params ''CREATE PROCEDURE p (IN price DECIMAL(10,2))''
       = ([''IN price DECIMAL(10'', ''2''], [])
   \<and> extract_stored_procedure_params ''CREATE PROCEDURE p (INOUT a INT, b INT)''
       = ([''INOUT a INT'', ''b INT''], [''INOUT a INT''])"
proof (intro conjI)
  show "\<forall>p \<in> set (fst (extract_stored_procedure_params sql_text))
        \<union> set (snd (extract_stored_procedure_params sql_text)). CHR '','' \<notin> set p"
    by (rule extract_stored_procedure_params_no_comma)
  show "extract_stored_procedure_params ''CREATE PROCEDURE p (IN price DECIMAL(10,2))''
       = ([''IN price DECIMAL(10'', ''2''], [])"
    by code_simp
  show "extract_stored_procedure_params ''CREATE PROCEDURE p (INOUT a INT, b INT)''
       = ([''INOUT a INT'', ''b INT''], [''INOUT a INT''])"
    by code_simp
qed

theorem extract_stored_procedure_params_splits_at_every_comma_witness:
  "''IN price DECIMAL(10''
     \<in> set (fst (extract_stored_procedure_params ''CREATE PROCEDURE p (IN price DECIMAL(10,2))''))
        \<union> set (snd (extract_stored_procedure_params ''CREATE PROCEDURE p (IN price DECIMAL(10,2))''))
   \<and> CHR '','' \<notin> set ''IN price DECIMAL(10''"
proof -
  note T = extract_stored_procedure_params_splits_at_every_comma
    [of "''CREATE PROCEDURE p (IN price DECIMAL(10,2))''"]
  have m: "''IN price DECIMAL(10''
     \<in> set (fst (extract_stored_procedure_params ''CREATE PROCEDURE p (IN price DECIMAL(10,2))''))
        \<union> set (snd (extract_stored_procedure_params ''CREATE PROCEDURE p (IN price DECIMAL(10,2))''))"
    by (simp only: T [THEN conjunct2, THEN conjunct1]) simp
  have "CHR '','' \<notin> set ''IN price DECIMAL(10''"
    using T [THEN conjunct1] m by (rule bspec)
  with m show ?thesis by (intro conjI)
qed

section \<open>Properties of the column source resolution\<close>

lemma run1_word:
  assumes "t \<noteq> []" "\<forall>x \<in> set t. P x" "r = [] \<or> \<not> P (hd r)"
  shows "run1 P (t @ r) = Some (t, r)"
proof -
  have "takeWhile P (t @ r) = t" "dropWhile P (t @ r) = r"
    using assms(2,3) by (cases r; simp)+
  then show ?thesis using assms(1) by (simp add: run1_def)
qed

lemma qualified_ref_here:
  assumes "t \<noteq> []" "c \<noteq> []" "\<forall>x \<in> set (t @ c). is_word x" "rest = [] \<or> \<not> is_word (hd rest)"
  shows "qualified_ref (t @ ''.'' @ c @ rest) = Some ((t, c), rest)"
proof -
  have nd: "\<not> is_word (CHR ''.'')" by (simp add: is_word_def lower_letters_def upper_letters_def)
  have 1: "run1 is_word (t @ (''.'' @ c @ rest)) = Some (t, ''.'' @ c @ rest)"
    using assms(1,3) nd by (intro run1_word) simp_all
  have 2: "run1 is_word (c @ rest) = Some (c, rest)"
    using assms(2,3,4) by (intro run1_word) simp_all
  show ?thesis unfolding qualified_ref_def using 1 2 by (simp add: lit_def startswith_def)
qed

lemma qualified_ref_none:
  assumes "pre \<noteq> []" "CHR ''.'' \<notin> set pre" "\<not> is_word (last pre)"
  shows "qualified_ref (pre @ r) = None"
proof -
  have ex: "\<exists>x \<in> set pre. \<not> is_word x" using assms(1,3) last_in_set by blast
  then obtain x where "x \<in> set pre" "\<not> is_word x" by blast
  then have d: "dropWhile is_word (pre @ r) = dropWhile is_word pre @ r"
    by (rule dropWhile_append1)
  have ne: "dropWhile is_word pre \<noteq> []" using ex by (simp add: dropWhile_eq_Nil_conv)
  then have "hd (dropWhile is_word pre) \<in> set pre"
    by (metis hd_in_set set_dropWhileD)
  then have "hd (dropWhile is_word pre) \<noteq> CHR ''.''" using assms(2) by auto
  then have "lit ''.'' (dropWhile is_word pre @ r) = None"
    using ne by (cases "dropWhile is_word pre") (simp_all add: lit_def startswith_def)
  then show ?thesis unfolding qualified_ref_def run1_def by (simp add: d)
qed

lemma search_here: "m s = Some r \<Longrightarrow> search m s = Some r"
  by (cases s) simp_all

lemma search_qualified_ref:
  assumes "t \<noteq> []" "c \<noteq> []" "\<forall>x \<in> set (t @ c). is_word x" "rest = [] \<or> \<not> is_word (hd rest)"
  shows "CHR ''.'' \<notin> set pre \<Longrightarrow> pre = [] \<or> \<not> is_word (last pre) \<Longrightarrow>
    search qualified_ref (pre @ t @ ''.'' @ c @ rest) = Some ((t, c), rest)"
proof (induction pre)
  case Nil
  show ?case using qualified_ref_here [OF assms] by (simp add: search_here)
next
  case (Cons a pre)
  have l: "\<not> is_word (last (a # pre))" using Cons.prems(2) by simp
  have n: "qualified_ref ((a # pre) @ t @ ''.'' @ c @ rest) = None"
    using Cons.prems(1) l by (intro qualified_ref_none) simp_all
  have "pre = [] \<or> \<not> is_word (last pre)" using l by (cases pre) simp_all
  then have "search qualified_ref (pre @ t @ ''.'' @ c @ rest) = Some ((t, c), rest)"
    using Cons.IH Cons.prems(1) by simp
  then show ?case using n by simp
qed

lemma search_in_function_call:
  assumes "t \<noteq> []" "c \<noteq> []" "\<forall>x \<in> set (t @ c). is_word x" "rest = [] \<or> \<not> is_word (hd rest)"
    and "CHR ''.'' \<notin> set (func_name @ before)" "before = [] \<or> \<not> is_word (last before)"
  shows "search qualified_ref (func_name @ ''('' @ before @ t @ ''.'' @ c @ rest)
    = Some ((t, c), rest)"
proof -
  have np: "\<not> is_word (CHR ''('')" by (simp add: is_word_def lower_letters_def upper_letters_def)
  have "search qualified_ref ((func_name @ ''('' @ before) @ t @ ''.'' @ c @ rest)
      = Some ((t, c), rest)"
    using assms(5,6) np by (intro search_qualified_ref [OF assms(1-4)]) auto
  then show ?thesis by simp
qed

text \<open>
  C1. \<open>_extract_column_source\<close> looks for a qualified reference anywhere in the expression
  before it looks for a function call. For a call \<open>func_name(before t.c rest\<close>, where
  \<open>t.c\<close> is the first qualified reference (no dot before it, \<open>t\<close> and \<open>c\<close> whole words), the
  result is the bare \<open>t.c\<close>; the form \<open>t.c (in func_name)\<close> is not returned. For
  \<open>SUM(o.amount)\<close> the result is \<open>o.amount\<close>.
\<close>

theorem extract_column_source_function_call:
  assumes "t \<noteq> []" "c \<noteq> []" "\<forall>x \<in> set (t @ c). is_word x"
    and "rest = [] \<or> \<not> is_word (hd rest)"
    and "CHR ''.'' \<notin> set (func_name @ before)" "before = [] \<or> \<not> is_word (last before)"
  shows "extract_column_source metadata_store
      (func_name @ ''('' @ before @ t @ ''.'' @ c @ rest) source_tables = t @ ''.'' @ c"
  using search_in_function_call [OF assms] by (simp add: extract_column_source_def)

theorem extract_column_source_function_call_witness:
  "extract_column_source [] ''SUM(o.amount)'' [''orders''] = ''o.amount''
   \<and> ''o.amount'' \<noteq> ''o.amount (in SUM)''"
  using extract_column_source_function_call [of "''o''" "''amount''" "'')''" "''SUM''" "[]"
      "[]" "[''orders'']"]
  by (simp add: is_word_def lower_letters_def upper_letters_def)

text \<open>
  C2. \<open>_derive_column_name\<close> makes the same search first, so for such a call without alias
  the derived name is the column \<open>c\<close> of the first qualified reference, not
  \<open>func_name_result\<close>. For \<open>SUM(o.amount)\<close> the name is \<open>amount\<close>.
\<close>

theorem derive_column_name_function_call:
  assumes "t \<noteq> []" "c \<noteq> []" "\<forall>x \<in> set (t @ c). is_word x"
    and "rest = [] \<or> \<not> is_word (hd rest)"
    and "CHR ''.'' \<notin> set (func_name @ before)" "before = [] \<or> \<not> is_word (last before)"
  shows "derive_column_name (func_name @ ''('' @ before @ t @ ''.'' @ c @ rest) = c"
  using search_in_function_call [OF assms] by (simp add: derive_column_name_def)

theorem derive_column_name_function_call_witness:
  "derive_column_name ''SUM(o.amount)'' = ''amount'' \<and> ''amount'' \<noteq> ''SUM_result''"
  using derive_column_name_function_call [of "''o''" "''amount''" "'')''" "''SUM''" "[]"]
  by (simp add: is_word_def lower_letters_def upper_letters_def)

section \<open>Properties of the INSERT column mappings\<close>

lemma map_columns_other:
  "key \<notin> (\<lambda>c. tt @ ''.'' @ c) ` set cols \<Longrightarrow>
   map_of (map_columns st tt sts src i cols m) key = map_of m key"
  by (induction cols arbitrary: i m) (auto simp: update_conv')

lemma map_columns_at:
  "distinct cols \<Longrightarrow> j < length cols \<Longrightarrow> i + j < length src \<Longrightarrow>
   map_of (map_columns st tt sts src i cols m) (tt @ ''.'' @ cols ! j)
     = Some [extract_column_source st (src ! (i + j)) sts]"
proof (induction cols arbitrary: i j m)
  case Nil
  then show ?case by simp
next
  case (Cons c cols)
  show ?case
  proof (cases j)
    case 0
    have "tt @ ''.'' @ c \<notin> (\<lambda>c. tt @ ''.'' @ c) ` set cols" using Cons.prems(1) by auto
    then show ?thesis using Cons.prems(3) 0
      by (simp add: map_columns_other update_conv')
  next
    case (Suc k)
    then show ?thesis using Cons.IH [of k "i + 1"] Cons.prems by simp
  qed
qed

lemma map_columns_beyond:
  "distinct cols \<Longrightarrow> j < length cols \<Longrightarrow> length src \<le> i + j \<Longrightarrow>
   map_of m (tt @ ''.'' @ cols ! j) = None \<Longrightarrow>
   map_of (map_columns st tt sts src i cols m) (tt @ ''.'' @ cols ! j) = None"
proof (induction cols arbitrary: i j m)
  case Nil
  then show ?case by simp
next
  case (Cons c cols)
  show ?case
  proof (cases j)
    case 0
    have "tt @ ''.'' @ c \<notin> (\<lambda>c. tt @ ''.'' @ c) ` set cols" using Cons.prems(1) by auto
    then show ?thesis using Cons.prems(3,4) 0
      by (simp add: map_columns_other)
  next
    case (Suc k)
    have ne: "cols ! k \<noteq> c" using Cons.prems(1,2) Suc by auto
    have "map_of (if i < length src then
          AList.update (tt @ ''.'' @ c) [extract_column_source st (src ! i) sts] m else m)
        (tt @ ''.'' @ cols ! k) = None"
      using Cons.prems(4) Suc ne by (simp add: update_conv')
    then show ?thesis using Cons.IH [of k "i + 1"] Cons.prems(1,2,3) Suc by simp
  qed
qed

lemma insert_column_mappings_at:
  assumes "search insert_cols_pattern sql_text = Some (cols_text, r1)"
    and "search select_pattern sql_text = Some (source_columns_text, r2)"
    and "distinct (map strip (split_on (CHR '','') cols_text))"
    and j: "j < length (map strip (split_on (CHR '','') cols_text))"
  shows "map_of (insert_column_mappings st sql_text tt sts)
         (tt @ ''.'' @ map strip (split_on (CHR '','') cols_text) ! j)
       = (if j < length (split_columns [] 0 [] source_columns_text)
          then Some [extract_column_source st (split_columns [] 0 [] source_columns_text ! j) sts]
          else None)"
proof (cases "j < length (split_columns [] 0 [] source_columns_text)")
  case True
  then show ?thesis
    using map_columns_at [OF assms(3) j, where src = "split_columns [] 0 [] source_columns_text"
        and i = 0 and tt = tt and m = "[]" and st = st and sts = sts]
    by (simp add: insert_column_mappings_def assms(1,2) Let_def del: map_columns.simps)
next
  case False
  then show ?thesis
    using map_columns_beyond [OF assms(3) j, where src = "split_columns [] 0 [] source_columns_text"
        and i = 0 and tt = tt and m = "[]" and st = st and sts = sts]
    by (simp add: insert_column_mappings_def assms(1,2) Let_def del: map_columns.simps)
qed

text \<open>
  C3. What the \<open>INSERT\<close> branch does with the two lists it reads from the statement: with
  target columns \<open>cols_text\<close> split at the commas, no name twice, and source columns the
  projection text split at the commas outside parentheses, the target column of index
  \<open>j\<close> is mapped to the one source that \<open>_extract_column_source\<close> gives for the source
  column of index \<open>j\<close> when there is one, and is not mapped otherwise; nothing raises.
  \<open>INSERT INTO t (a,b) SELECT x, y FROM s\<close>, with \<open>x\<close> and \<open>y\<close> columns of \<open>s\<close> in the store,
  gives exactly \<open>{t.a: [s.x], t.b: [s.y]}\<close>. But the projection text ends at the first
  \<open>FROM\<close> after white space, inside parentheses or not: for
  \<open>INSERT INTO t (a,b) SELECT EXTRACT(YEAR FROM o.d), o.y FROM s o\<close> the only source column
  is \<open>EXTRACT(YEAR\<close>, and \<open>t.b\<close> is not mapped.
\<close>

theorem insert_column_mappings_by_position:
  assumes "insert_branch sql_text"
    and "search insert_cols_pattern sql_text = Some (cols_text, r1)"
    and "search select_pattern sql_text = Some (source_columns_text, r2)"
    and "distinct (map strip (split_on (CHR '','') cols_text))"
  shows "(\<forall>j. j < length (map strip (split_on (CHR '','') cols_text)) \<longrightarrow>
      map_of (insert_column_mappings metadata_store sql_text target_table source_tables)
         (target_table @ ''.'' @ map strip (split_on (CHR '','') cols_text) ! j)
       = (if j < length (split_columns [] 0 [] source_columns_text)
          then Some [extract_column_source metadata_store
                       (split_columns [] 0 [] source_columns_text ! j) source_tables]
          else None))
   \<and> insert_column_mappings
        [(''default'', [(''s'', [(''_table_properties'', []), (''x'', []), (''y'', [])])])]
        ''INSERT INTO t (a,b) SELECT x, y FROM s'' ''t'' [''s'']
       = [(''t.a'', [''s.x'']), (''t.b'', [''s.y''])]
   \<and> insert_branch ''INSERT INTO t (a,b) SELECT EXTRACT(YEAR FROM o.d), o.y FROM s o''
   \<and> insert_column_mappings [] ''INSERT INTO t (a,b) SELECT EXTRACT(YEAR FROM o.d), o.y FROM s o''
        ''t'' [''s''] = [(''t.a'', [''EXTRACT(YEAR''])]"
proof (intro conjI allI impI)
  fix j assume "j < length (map strip (split_on (CHR '','') cols_text))"
  then show "map_of (insert_column_mappings metadata_store sql_text target_table source_tables)
         (target_table @ ''.'' @ map strip (split_on (CHR '','') cols_text) ! j)
       = (if j < length (split_columns [] 0 [] source_columns_text)
          then Some [extract_column_source metadata_store
                       (split_columns [] 0 [] source_columns_text ! j) source_tables]
          else None)"
    by (rule insert_column_mappings_at [OF assms(2,3,4)])
next
  show "insert_column_mappings
        [(''default'', [(''s'', [(''_table_properties'', []), (''x'', []), (''y'', [])])])]
        ''INSERT INTO t (a,b) SELECT x, y FROM s'' ''t'' [''s'']
       = [(''t.a'', [''s.x'']), (''t.b'', [''s.y''])]"
    by code_simp
next
  show "insert_branch ''INSERT INTO t (a,b) SELECT EXTRACT(YEAR FROM o.d), o.y FROM s o''"
    by code_simp
next
  show "insert_column_mappings [] ''INSERT INTO t (a,b) SELECT EXTRACT(YEAR FROM o.d), o.y FROM s o''
        ''t'' [''s''] = [(''t.a'', [''EXTRACT(YEAR''])]"
    by code_simp
qed

theorem insert_column_mappings_by_position_witness:
  "map_of (insert_column_mappings [] ''INSERT INTO t (a, b, c) SELECT s.x, f(s.y, 1) FROM s''
       ''t'' [''s'']) ''t.b'' = Some [''s.y'']
   \<and> map_of (insert_column_mappings [] ''INSERT INTO t (a, b, c) SELECT s.x, f(s.y, 1) FROM s''
       ''t'' [''s'']) ''t.c'' = None"
proof -
  let ?x = "''INSERT INTO t (a, b, c) SELECT s.x, f(s.y, 1) FROM s''"
  have b: "insert_branch ?x" by code_simp
  have p1: "search insert_cols_pattern ?x = Some (''a, b, c'', '' SELECT s.x, f(s.y, 1) FROM s'')"
    by code_simp
  have p2: "search select_pattern ?x = Some (''s.x, f(s.y, 1)'', '' s'')"
    by code_simp
  have d: "distinct (map strip (split_on (CHR '','') ''a, b, c''))" by code_simp
  note T = insert_column_mappings_by_position [OF b p1 p2 d, where metadata_store = "[]"
      and target_table = "''t''" and source_tables = "[''s'']", THEN conjunct1, rule_format]
  have l1: "1 < length (map strip (split_on (CHR '','') ''a, b, c''))" by code_simp
  have l2: "2 < length (map strip (split_on (CHR '','') ''a, b, c''))" by code_simp
  have k1: "''t'' @ ''.'' @ map strip (split_on (CHR '','') ''a, b, c'') ! 1 = ''t.b''"
    by code_simp
  have k2: "''t'' @ ''.'' @ map strip (split_on (CHR '','') ''a, b, c'') ! 2 = ''t.c''"
    by code_simp
  have v1: "(if 1 < length (split_columns [] 0 [] ''s.x, f(s.y, 1)'')
          then Some [extract_column_source [] (split_columns [] 0 [] ''s.x, f(s.y, 1)'' ! 1) [''s'']]
          else None) = Some [''s.y'']"
    by code_simp
  have v2: "(if 2 < length (split_columns [] 0 [] ''s.x, f(s.y, 1)'')
          then Some [extract_column_source [] (split_columns [] 0 [] ''s.x, f(s.y, 1)'' ! 2) [''s'']]
          else None) = None"
    by code_simp
  have 1: "map_of (insert_column_mappings [] ?x ''t'' [''s'']) ''t.b'' = Some [''s.y'']"
    using T [OF l1] unfolding k1 v1 .
  have 2: "map_of (insert_column_mappings [] ?x ''t'' [''s'']) ''t.c'' = None"
    using T [OF l2] unfolding k2 v2 .
  show ?thesis using 1 2 by (intro conjI)
qed

section \<open>Export to JSON and import\<close>






subsection \<open>Updates of association lists\<close>







subsection \<open>Well-formed stores\<close>



















subsection \<open>Importing a well-formed document\<close>















end
